theory Spec2Isabelle
  imports Main
begin

section \<open>nnptr: the non-null wrapper and the shared non-null reference\<close>

text \<open>
  A shallow embedding of \<^verbatim>\<open>include/nnptr/sref.hpp\<close>.

  The header has two build modes, selected by the preprocessor: every null check is
  guarded by \<^verbatim>\<open>#ifndef NO_NNPTR_CHECKS\<close>. The mode is the boolean \<open>chk\<close>
  that each checking operation takes first: \<open>True\<close> when \<^verbatim>\<open>NO_NNPTR_CHECKS\<close>
  is not defined (the checked build), \<open>False\<close> when it is (the unchecked build).

  An operation of the header either returns or ends the process by
  \<^verbatim>\<open>std::terminate()\<close>. A result is therefore a value of \<open>error + 'a\<close>:
  \<open>Inr\<close> is a normal return, \<open>Inl Terminated\<close> is the call of
  \<^verbatim>\<open>std::terminate()\<close>, and \<open>Inl Undefined\<close> marks the places where C++
  gives the program no meaning at all (a null or dangling pointer is dereferenced,
  a reference names an object that is not alive).
\<close>

datatype error = Terminated | Undefined

subsection \<open>\<^verbatim>\<open>template<class T> class NotNull\<close>\<close>

text \<open>
  The class has the single private member \<^verbatim>\<open>T ptr_\<close>, the field \<open>ptr\<close>
  of the record (a name cannot end in an underscore here). The payload type \<open>'p\<close>
  is any type that can be compared with \<^verbatim>\<open>nullptr\<close> (the \<^verbatim>\<open>static_assert\<close>
  of the class); the comparison \<^verbatim>\<open>ptr_ == nullptr\<close> of that type is the
  parameter \<open>nul :: 'p \<Rightarrow> bool\<close> of the operations below.
\<close>

record 'p NotNull =
  ptr :: 'p

text \<open>
  \<^verbatim>\<open>constexpr NotNull(U&& u) : ptr_(std::forward<U>(u))\<close>, for \<open>U\<close> convertible
  to \<open>T\<close>; \<open>conv\<close> is that implicit conversion.
\<close>

definition NotNull_fwd :: "bool \<Rightarrow> ('p \<Rightarrow> bool) \<Rightarrow> ('u \<Rightarrow> 'p) \<Rightarrow> 'u \<Rightarrow> error + 'p NotNull" where
  "NotNull_fwd chk nul conv u =
     (let this = \<lparr>ptr = conv u\<rparr>
      in if chk \<and> nul (ptr this) then Inl Terminated else Inr this)"

text \<open>\<^verbatim>\<open>constexpr NotNull(T u) : ptr_(std::move(u))\<close>.\<close>

definition NotNull_val :: "bool \<Rightarrow> ('p \<Rightarrow> bool) \<Rightarrow> 'p \<Rightarrow> error + 'p NotNull" where
  "NotNull_val chk nul u =
     (let this = \<lparr>ptr = u\<rparr>
      in if chk \<and> nul (ptr this) then Inl Terminated else Inr this)"

text \<open>\<^verbatim>\<open>get() const\<close>: the read accessor.\<close>

definition NotNull_get :: "bool \<Rightarrow> ('p \<Rightarrow> bool) \<Rightarrow> 'p NotNull \<Rightarrow> error + 'p" where
  "NotNull_get chk nul this =
     (if chk \<and> nul (ptr this) then Inl Terminated else Inr (ptr this))"

text \<open>
  \<^verbatim>\<open>constexpr NotNull(const NotNull<U>& other) : NotNull(other.get())\<close>: the
  accessor of the source wrapper (with the null test \<open>nulU\<close> of its payload type), then
  the delegation to the constructor from a value.
\<close>

definition NotNull_other ::
  "bool \<Rightarrow> ('u \<Rightarrow> bool) \<Rightarrow> ('p \<Rightarrow> bool) \<Rightarrow> ('u \<Rightarrow> 'p) \<Rightarrow> 'u NotNull \<Rightarrow> error + 'p NotNull" where
  "NotNull_other chk nulU nul conv other =
     (case NotNull_get chk nulU other of
        Inl e \<Rightarrow> Inl e
      | Inr u \<Rightarrow> NotNull_fwd chk nul conv u)"

text \<open>
  \<^verbatim>\<open>NotNull(const NotNull& other) = default\<close> and
  \<^verbatim>\<open>NotNull& operator=(const NotNull& other) = default\<close>: member-wise copy, no check.
\<close>

definition NotNull_copy :: "'p NotNull \<Rightarrow> 'p NotNull" where
  "NotNull_copy other = \<lparr>ptr = ptr other\<rparr>"

definition NotNull_assign :: "'p NotNull \<Rightarrow> 'p NotNull \<Rightarrow> 'p NotNull" where
  "NotNull_assign this other = this\<lparr>ptr := ptr other\<rparr>"

text \<open>\<^verbatim>\<open>constexpr operator T() const { return get(); }\<close>\<close>

definition NotNull_operator_T :: "bool \<Rightarrow> ('p \<Rightarrow> bool) \<Rightarrow> 'p NotNull \<Rightarrow> error + 'p" where
  "NotNull_operator_T chk nul this = NotNull_get chk nul this"

text \<open>
  The six comparison operators between \<^verbatim>\<open>NotNull<T>\<close> and \<^verbatim>\<open>NotNull<U>\<close>.
  Each one calls \<^verbatim>\<open>get()\<close> on both sides and applies the payload types' own operator
  of the same name; those operators are the fields of \<open>payload_ops\<close>.
\<close>

record ('p, 'q) payload_ops =
  p_eq :: "'p \<Rightarrow> 'q \<Rightarrow> bool"
  p_ne :: "'p \<Rightarrow> 'q \<Rightarrow> bool"
  p_lt :: "'p \<Rightarrow> 'q \<Rightarrow> bool"
  p_le :: "'p \<Rightarrow> 'q \<Rightarrow> bool"
  p_gt :: "'p \<Rightarrow> 'q \<Rightarrow> bool"
  p_ge :: "'p \<Rightarrow> 'q \<Rightarrow> bool"

text \<open>\<^verbatim>\<open>return lhs.get() == rhs.get();\<close>\<close>

definition NotNull_eq ::
  "bool \<Rightarrow> ('p \<Rightarrow> bool) \<Rightarrow> ('q \<Rightarrow> bool) \<Rightarrow> ('p, 'q) payload_ops \<Rightarrow> 'p NotNull \<Rightarrow> 'q NotNull \<Rightarrow> error + bool" where
  "NotNull_eq chk nulT nulU ops lhs rhs =
     (case NotNull_get chk nulT lhs of
        Inl e \<Rightarrow> Inl e
      | Inr a \<Rightarrow> (case NotNull_get chk nulU rhs of
                    Inl e \<Rightarrow> Inl e
                  | Inr b \<Rightarrow> Inr (p_eq ops a b)))"

text \<open>\<^verbatim>\<open>return lhs.get() != rhs.get();\<close>\<close>

definition NotNull_ne ::
  "bool \<Rightarrow> ('p \<Rightarrow> bool) \<Rightarrow> ('q \<Rightarrow> bool) \<Rightarrow> ('p, 'q) payload_ops \<Rightarrow> 'p NotNull \<Rightarrow> 'q NotNull \<Rightarrow> error + bool" where
  "NotNull_ne chk nulT nulU ops lhs rhs =
     (case NotNull_get chk nulT lhs of
        Inl e \<Rightarrow> Inl e
      | Inr a \<Rightarrow> (case NotNull_get chk nulU rhs of
                    Inl e \<Rightarrow> Inl e
                  | Inr b \<Rightarrow> Inr (p_ne ops a b)))"

text \<open>\<^verbatim>\<open>return lhs.get() < rhs.get();\<close>\<close>

definition NotNull_lt ::
  "bool \<Rightarrow> ('p \<Rightarrow> bool) \<Rightarrow> ('q \<Rightarrow> bool) \<Rightarrow> ('p, 'q) payload_ops \<Rightarrow> 'p NotNull \<Rightarrow> 'q NotNull \<Rightarrow> error + bool" where
  "NotNull_lt chk nulT nulU ops lhs rhs =
     (case NotNull_get chk nulT lhs of
        Inl e \<Rightarrow> Inl e
      | Inr a \<Rightarrow> (case NotNull_get chk nulU rhs of
                    Inl e \<Rightarrow> Inl e
                  | Inr b \<Rightarrow> Inr (p_lt ops a b)))"

text \<open>\<^verbatim>\<open>return lhs.get() <= rhs.get();\<close>\<close>

definition NotNull_le ::
  "bool \<Rightarrow> ('p \<Rightarrow> bool) \<Rightarrow> ('q \<Rightarrow> bool) \<Rightarrow> ('p, 'q) payload_ops \<Rightarrow> 'p NotNull \<Rightarrow> 'q NotNull \<Rightarrow> error + bool" where
  "NotNull_le chk nulT nulU ops lhs rhs =
     (case NotNull_get chk nulT lhs of
        Inl e \<Rightarrow> Inl e
      | Inr a \<Rightarrow> (case NotNull_get chk nulU rhs of
                    Inl e \<Rightarrow> Inl e
                  | Inr b \<Rightarrow> Inr (p_le ops a b)))"

text \<open>\<^verbatim>\<open>return lhs.get() > rhs.get();\<close>\<close>

definition NotNull_gt ::
  "bool \<Rightarrow> ('p \<Rightarrow> bool) \<Rightarrow> ('q \<Rightarrow> bool) \<Rightarrow> ('p, 'q) payload_ops \<Rightarrow> 'p NotNull \<Rightarrow> 'q NotNull \<Rightarrow> error + bool" where
  "NotNull_gt chk nulT nulU ops lhs rhs =
     (case NotNull_get chk nulT lhs of
        Inl e \<Rightarrow> Inl e
      | Inr a \<Rightarrow> (case NotNull_get chk nulU rhs of
                    Inl e \<Rightarrow> Inl e
                  | Inr b \<Rightarrow> Inr (p_gt ops a b)))"

text \<open>\<^verbatim>\<open>return lhs.get() >= rhs.get();\<close>\<close>

definition NotNull_ge ::
  "bool \<Rightarrow> ('p \<Rightarrow> bool) \<Rightarrow> ('q \<Rightarrow> bool) \<Rightarrow> ('p, 'q) payload_ops \<Rightarrow> 'p NotNull \<Rightarrow> 'q NotNull \<Rightarrow> error + bool" where
  "NotNull_ge chk nulT nulU ops lhs rhs =
     (case NotNull_get chk nulT lhs of
        Inl e \<Rightarrow> Inl e
      | Inr a \<Rightarrow> (case NotNull_get chk nulU rhs of
                    Inl e \<Rightarrow> Inl e
                  | Inr b \<Rightarrow> Inr (p_ge ops a b)))"

text \<open>
  Raw pointers: an address is a natural number and \<^verbatim>\<open>nullptr\<close> is the address 0.
  Their built-in comparisons are those of the addresses.
\<close>

type_synonym addr = nat

definition nullptr :: addr where
  "nullptr = 0"

definition raw_is_null :: "addr \<Rightarrow> bool" where
  "raw_is_null p = (p = nullptr)"

definition raw_ops :: "(addr, addr) payload_ops" where
  "raw_ops = \<lparr>p_eq = (\<lambda>a b. a = b), p_ne = (\<lambda>a b. a \<noteq> b), p_lt = (\<lambda>a b. a < b),
              p_le = (\<lambda>a b. a \<le> b), p_gt = (\<lambda>a b. a > b), p_ge = (\<lambda>a b. a \<ge> b)\<rparr>"

subsection \<open>The program state\<close>

text \<open>
  \<^verbatim>\<open>std::shared_ptr<T>\<close> belongs to the standard library, not to the header. Its
  model follows the contract the header relies on: a handle has a stored pointer (what
  \<^verbatim>\<open>get()\<close> returns and what \<^verbatim>\<open>== nullptr\<close> tests) and may own a control
  block; the control block counts the handles that own it and remembers the pointer to
  delete; copying a handle adds one to the count; destroying a handle takes one away,
  and the handle that takes the count to zero deletes the object and the block.

  The heap holds the live pointee objects, each at its address; objects of every
  pointee type are values of the one type \<open>'v\<close>. The object a control block owns is
  such an object. The conversion of a pointer to \<open>T\<close> into a pointer to a base class
  \<open>Y\<close> gives the address of the base part of the same object, which need not be the
  address of the object (a base class that is not the first one lies further in). The
  heap has entries for whole objects only, so the statements below read and write
  only through references that store the address of the object.
\<close>

type_synonym cbid = nat

record shared_ptr =
  stored :: addr
  ctrl :: "cbid option"

definition sp_is_null :: "shared_ptr \<Rightarrow> bool" where
  "sp_is_null p = (stored p = nullptr)"

text \<open>
  \<^verbatim>\<open>class sref\<close> has the single public member
  \<^verbatim>\<open>NotNull<std::shared_ptr<T>> data_\<close>, the field \<open>data\<close>.
\<close>

record sref =
  data :: "shared_ptr NotNull"

text \<open>
  The state: the live pointee objects, the live control blocks (use count and owned
  pointer), and the live \<^verbatim>\<open>sref\<close> objects. An \<^verbatim>\<open>sref\<close> object is found
  by its own address \<open>loc\<close>, which is what \<^verbatim>\<open>this\<close> and \<^verbatim>\<open>&other\<close> are.
\<close>

type_synonym loc = nat

record 'v state =
  heap :: "addr \<rightharpoonup> 'v"
  blocks :: "cbid \<rightharpoonup> nat \<times> addr"
  srefs :: "loc \<rightharpoonup> sref"

text \<open>
  \<^verbatim>\<open>std::shared_ptr<T>{ p }\<close>: a new control block \<open>c\<close> (the one the allocator
  hands out) that owns \<open>p\<close>, with use count 1.
\<close>

definition sp_make :: "cbid \<Rightarrow> addr \<Rightarrow> 'v state \<Rightarrow> shared_ptr \<times> 'v state" where
  "sp_make c p s = (\<lparr>stored = p, ctrl = Some c\<rparr>, s\<lparr>blocks := (blocks s)(c \<mapsto> (1, p))\<rparr>)"

text \<open>Copying a handle: one more owner of its control block.\<close>

definition sp_copy :: "shared_ptr \<Rightarrow> 'v state \<Rightarrow> error + 'v state" where
  "sp_copy p s =
     (case ctrl p of
        None \<Rightarrow> Inr s
      | Some c \<Rightarrow>
          (case blocks s c of
             None \<Rightarrow> Inl Undefined
           | Some (n, own) \<Rightarrow> Inr (s\<lparr>blocks := (blocks s)(c \<mapsto> (Suc n, own))\<rparr>)))"

text \<open>
  Destroying a handle: one owner less; the last owner deletes the owned object
  (\<^verbatim>\<open>delete\<close> of a null pointer does nothing) and the control block.
\<close>

definition sp_release :: "shared_ptr \<Rightarrow> 'v state \<Rightarrow> error + 'v state" where
  "sp_release p s =
     (case ctrl p of
        None \<Rightarrow> Inr s
      | Some c \<Rightarrow>
          (case blocks s c of
             None \<Rightarrow> Inl Undefined
           | Some (n, own) \<Rightarrow>
               if 1 < n then Inr (s\<lparr>blocks := (blocks s)(c \<mapsto> (n - 1, own))\<rparr>)
               else if own = nullptr then Inr (s\<lparr>blocks := (blocks s)(c := None)\<rparr>)
               else if heap s own = None then Inl Undefined
               else Inr (s\<lparr>heap := (heap s)(own := None), blocks := (blocks s)(c := None)\<rparr>)))"

subsection \<open>\<^verbatim>\<open>template<typename T> class sref\<close>\<close>

text \<open>
  A constructor runs on the storage \<open>this\<close> that its caller provides. The wrapped
  payload type is \<^verbatim>\<open>std::shared_ptr<T>\<close>, whose null test is \<open>sp_is_null\<close>.

  \<^verbatim>\<open>sref(const sref<T>& other) : data_{ other.data_ }\<close>: the defaulted copy
  constructor of \<^verbatim>\<open>NotNull\<close>, which copies the handle.
\<close>

definition sref_copy :: "loc \<Rightarrow> loc \<Rightarrow> 'v state \<Rightarrow> error + 'v state" where
  "sref_copy this other s =
     (case srefs s other of
        None \<Rightarrow> Inl Undefined
      | Some src \<Rightarrow>
          (let d = NotNull_copy (data src)
           in case sp_copy (ptr d) s of
                Inl e \<Rightarrow> Inl e
              | Inr s1 \<Rightarrow> Inr (s1\<lparr>srefs := (srefs s1)(this \<mapsto> \<lparr>data = d\<rparr>)\<rparr>)))"

text \<open>
  \<^verbatim>\<open>sref(const sref<T>&& corpse) : data_{ corpse.data_ }\<close>: \<^verbatim>\<open>corpse.data_\<close>
  is a const lvalue, so this is the same copy constructor of \<^verbatim>\<open>NotNull\<close>.
\<close>

definition sref_move :: "loc \<Rightarrow> loc \<Rightarrow> 'v state \<Rightarrow> error + 'v state" where
  "sref_move this corpse s =
     (case srefs s corpse of
        None \<Rightarrow> Inl Undefined
      | Some src \<Rightarrow>
          (let d = NotNull_copy (data src)
           in case sp_copy (ptr d) s of
                Inl e \<Rightarrow> Inl e
              | Inr s1 \<Rightarrow> Inr (s1\<lparr>srefs := (srefs s1)(this \<mapsto> \<lparr>data = d\<rparr>)\<rparr>)))"

text \<open>
  \<^verbatim>\<open>sref(std::shared_ptr<T>& data) : data_{ data }\<close>: the forwarding constructor of
  \<^verbatim>\<open>NotNull\<close> copies the handle into \<^verbatim>\<open>ptr_\<close> and then tests it.
\<close>

definition sref_from_shared :: "bool \<Rightarrow> loc \<Rightarrow> shared_ptr \<Rightarrow> 'v state \<Rightarrow> error + 'v state" where
  "sref_from_shared chk this p s =
     (case sp_copy p s of
        Inl e \<Rightarrow> Inl e
      | Inr s1 \<Rightarrow>
          (case NotNull_fwd chk sp_is_null (\<lambda>u. u) p of
             Inl e \<Rightarrow> Inl e
           | Inr d \<Rightarrow> Inr (s1\<lparr>srefs := (srefs s1)(this \<mapsto> \<lparr>data = d\<rparr>)\<rparr>)))"

text \<open>
  \<^verbatim>\<open>sref(T* data) : data_{ std::shared_ptr<T>{ data } }\<close>: the raw pointer is
  captured by a new handle with the new control block \<open>c\<close>; the handle is moved into
  \<^verbatim>\<open>ptr_\<close> and then tested.
\<close>

definition sref_from_ptr :: "bool \<Rightarrow> cbid \<Rightarrow> loc \<Rightarrow> addr \<Rightarrow> 'v state \<Rightarrow> error + 'v state" where
  "sref_from_ptr chk c this p s =
     (case sp_make c p s of
        (h, s1) \<Rightarrow>
          (case NotNull_val chk sp_is_null h of
             Inl e \<Rightarrow> Inl e
           | Inr d \<Rightarrow> Inr (s1\<lparr>srefs := (srefs s1)(this \<mapsto> \<lparr>data = d\<rparr>)\<rparr>)))"

text \<open>
  \<^verbatim>\<open>sref(const X& other) : data_{ std::shared_ptr<T>{ new X(other) } }\<close> (and the
  \<^verbatim>\<open>X&&\<close> overload, which has the same body): \<^verbatim>\<open>new\<close> puts a copy of the
  value at the address \<open>a\<close> it hands out, which is never null.
\<close>

definition sref_from_value :: "bool \<Rightarrow> addr \<Rightarrow> cbid \<Rightarrow> loc \<Rightarrow> 'v \<Rightarrow> 'v state \<Rightarrow> error + 'v state" where
  "sref_from_value chk a c this x s = sref_from_ptr chk c this a (s\<lparr>heap := (heap s)(a \<mapsto> x)\<rparr>)"

text \<open>
  \<^verbatim>\<open>T& operator*()\<close>, \<^verbatim>\<open>T& get()\<close> and \<^verbatim>\<open>operator T&()\<close> all
  \<^verbatim>\<open>return *data_;\<close>, that is \<^verbatim>\<open>*data_.get()\<close>: the accessor of
  \<^verbatim>\<open>NotNull\<close> with its check, then the dereference of the handle. The result is a
  reference to the pointee, here the pointee's address. (The handle that the accessor
  returns by value is a temporary: it is copied and destroyed inside the expression.)
\<close>

definition sref_get :: "bool \<Rightarrow> loc \<Rightarrow> 'v state \<Rightarrow> error + addr" where
  "sref_get chk this s =
     (case srefs s this of
        None \<Rightarrow> Inl Undefined
      | Some r \<Rightarrow>
          (case NotNull_get chk sp_is_null (data r) of
             Inl e \<Rightarrow> Inl e
           | Inr p \<Rightarrow> if stored p = nullptr then Inl Undefined else Inr (stored p)))"

text \<open>Reading and writing the pointee through that reference.\<close>

definition sref_read :: "bool \<Rightarrow> loc \<Rightarrow> 'v state \<Rightarrow> error + 'v" where
  "sref_read chk this s =
     (case sref_get chk this s of
        Inl e \<Rightarrow> Inl e
      | Inr a \<Rightarrow> (case heap s a of None \<Rightarrow> Inl Undefined | Some v \<Rightarrow> Inr v))"

definition sref_write :: "bool \<Rightarrow> loc \<Rightarrow> 'v \<Rightarrow> 'v state \<Rightarrow> error + 'v state" where
  "sref_write chk this v s =
     (case sref_get chk this s of
        Inl e \<Rightarrow> Inl e
      | Inr a \<Rightarrow> (case heap s a of None \<Rightarrow> Inl Undefined | Some _ \<Rightarrow> Inr (s\<lparr>heap := (heap s)(a \<mapsto> v)\<rparr>)))"

text \<open>\<^verbatim>\<open>std::shared_ptr<T> sptr() const { return data_; }\<close>: a copy of the handle.\<close>

definition sptr :: "bool \<Rightarrow> loc \<Rightarrow> 'v state \<Rightarrow> error + shared_ptr \<times> 'v state" where
  "sptr chk this s =
     (case srefs s this of
        None \<Rightarrow> Inl Undefined
      | Some r \<Rightarrow>
          (case NotNull_operator_T chk sp_is_null (data r) of
             Inl e \<Rightarrow> Inl e
           | Inr p \<Rightarrow> (case sp_copy p s of Inl e \<Rightarrow> Inl e | Inr s1 \<Rightarrow> Inr (p, s1))))"

text \<open>
  \<^verbatim>\<open>sref<T>& operator=(const sref<T>& other)\<close>. The guard compares the addresses of
  the two \<^verbatim>\<open>sref\<close> objects. \<^verbatim>\<open>(*this->data_) = (*other.data_);\<close> calls the
  copy assignment operator of \<open>T\<close> on the two pointees; that operator is the parameter
  \<open>asg\<close>, which maps the old value of the left object and the value of the right object
  to the new value of the left object (a plain copy is \<open>\<lambda>old new. new\<close>). The result is
  \<^verbatim>\<open>*this\<close>, the address of the left \<^verbatim>\<open>sref\<close>.
\<close>

definition sref_assign ::
  "('v \<Rightarrow> 'v \<Rightarrow> 'v) \<Rightarrow> bool \<Rightarrow> loc \<Rightarrow> loc \<Rightarrow> 'v state \<Rightarrow> error + loc \<times> 'v state" where
  "sref_assign asg chk this other s =
     (if this = other then Inr (this, s)
      else
        (case sref_get chk this s of
           Inl e \<Rightarrow> Inl e
         | Inr a \<Rightarrow>
             (case sref_get chk other s of
                Inl e \<Rightarrow> Inl e
              | Inr b \<Rightarrow>
                  (case (heap s a, heap s b) of
                     (Some x, Some y) \<Rightarrow> Inr (this, s\<lparr>heap := (heap s)(a \<mapsto> asg x y)\<rparr>)
                   | _ \<Rightarrow> Inl Undefined))))"

text \<open>
  The implicit conversion of a \<^verbatim>\<open>T*\<close> into a \<^verbatim>\<open>Y*\<close>: a null pointer stays
  null; any other pointer becomes the address of the \<open>Y\<close> part of the object, which the
  layout of the classes fixes and which is the parameter \<open>up\<close>.
\<close>

definition ptr_convert :: "(addr \<Rightarrow> addr) \<Rightarrow> addr \<Rightarrow> addr" where
  "ptr_convert up p = (if p = nullptr then nullptr else up p)"

text \<open>
  \<^verbatim>\<open>std::shared_ptr<Y>\<close> built from a \<^verbatim>\<open>std::shared_ptr<T>&&\<close>: the new handle
  takes over the control block of the old one and stores the converted pointer; the
  use count stays.
\<close>

definition sp_convert :: "(addr \<Rightarrow> addr) \<Rightarrow> shared_ptr \<Rightarrow> shared_ptr" where
  "sp_convert up p = \<lparr>stored = ptr_convert up (stored p), ctrl = ctrl p\<rparr>"

text \<open>
  \<^verbatim>\<open>operator sref<Y>()\<close>:
  \<^verbatim>\<open>std::shared_ptr<Y> py = data_.get(); return py;\<close>.
  The accessor returns a copy \<open>g\<close> of the handle, which is converted into \<^verbatim>\<open>py\<close>;
  the result, on the storage \<open>result\<close>, is built from \<^verbatim>\<open>py\<close> by
  \<^verbatim>\<open>sref(std::shared_ptr<Y>&)\<close>; then \<^verbatim>\<open>py\<close> is destroyed.
\<close>

definition sref_convert ::
  "(addr \<Rightarrow> addr) \<Rightarrow> bool \<Rightarrow> loc \<Rightarrow> loc \<Rightarrow> 'v state \<Rightarrow> error + 'v state" where
  "sref_convert up chk this result s =
     (case srefs s this of
        None \<Rightarrow> Inl Undefined
      | Some r \<Rightarrow>
          (case NotNull_get chk sp_is_null (data r) of
             Inl e \<Rightarrow> Inl e
           | Inr g \<Rightarrow>
               (case sp_copy g s of
                  Inl e \<Rightarrow> Inl e
                | Inr s1 \<Rightarrow>
                    (let py = sp_convert up g
                     in case sref_from_shared chk result py s1 of
                          Inl e \<Rightarrow> Inl e
                        | Inr s2 \<Rightarrow> sp_release py s2))))"

text \<open>
  The destructor of \<^verbatim>\<open>sref\<close> is the implicit one: it destroys \<^verbatim>\<open>data_\<close>, that
  is the handle.
\<close>

definition sref_destroy :: "loc \<Rightarrow> 'v state \<Rightarrow> error + 'v state" where
  "sref_destroy this s =
     (case srefs s this of
        None \<Rightarrow> Inl Undefined
      | Some r \<Rightarrow>
          (case sp_release (ptr (data r)) s of
             Inl e \<Rightarrow> Inl e
           | Inr s1 \<Rightarrow> Inr (s1\<lparr>srefs := (srefs s1)(this := None)\<rparr>)))"

subsection \<open>Predicates used in the statements\<close>

text \<open>
  The wrappers that the public operations of \<^verbatim>\<open>NotNull<T>\<close> can produce in the
  checked build: the results of the three checking constructors (from a value of a
  convertible type \<open>U\<close>, from a value of type \<open>T\<close>, from any \<^verbatim>\<open>NotNull<U>\<close>),
  closed under the defaulted copy constructor and copy assignment. The accessor, the
  conversion to \<open>T\<close> and the comparisons are \<^verbatim>\<open>const\<close>: they leave the wrapper as
  it is.
\<close>

inductive NotNull_reachable :: "('u \<Rightarrow> bool) \<Rightarrow> ('p \<Rightarrow> bool) \<Rightarrow> ('u \<Rightarrow> 'p) \<Rightarrow> 'p NotNull \<Rightarrow> bool"
  for nulU :: "'u \<Rightarrow> bool" and nul :: "'p \<Rightarrow> bool" and conv :: "'u \<Rightarrow> 'p" where
  by_fwd: "NotNull_fwd True nul conv u = Inr w \<Longrightarrow> NotNull_reachable nulU nul conv w"
| by_val: "NotNull_val True nul v = Inr w \<Longrightarrow> NotNull_reachable nulU nul conv w"
| by_other: "NotNull_other True nulU nul conv other = Inr w \<Longrightarrow> NotNull_reachable nulU nul conv w"
| by_copy: "NotNull_reachable nulU nul conv w \<Longrightarrow> NotNull_reachable nulU nul conv (NotNull_copy w)"
| by_assign: "NotNull_reachable nulU nul conv w \<Longrightarrow> NotNull_reachable nulU nul conv w'
              \<Longrightarrow> NotNull_reachable nulU nul conv (NotNull_assign w w')"

text \<open>
  The \<^verbatim>\<open>sref\<close> at \<open>l\<close> is alive, its handle is not null and points to the live
  object at address \<open>a\<close>, which holds \<open>x\<close>.
\<close>

definition refers :: "'v state \<Rightarrow> loc \<Rightarrow> addr \<Rightarrow> 'v \<Rightarrow> bool" where
  "refers s l a x =
     (case srefs s l of
        None \<Rightarrow> False
      | Some r \<Rightarrow> stored (ptr (data r)) = a \<and> a \<noteq> nullptr \<and> heap s a = Some x)"

text \<open>The \<^verbatim>\<open>sref\<close> objects whose handle owns the control block \<open>c\<close>.\<close>

definition owners :: "'v state \<Rightarrow> cbid \<Rightarrow> loc set" where
  "owners s c = {l. \<exists>r. srefs s l = Some r \<and> ctrl (ptr (data r)) = Some c}"

text \<open>
  The use counts account for the \<^verbatim>\<open>sref\<close> objects: there are finitely many
  \<^verbatim>\<open>sref\<close> objects, the control block of each is alive, and the use count of a
  control block is at least the number of \<^verbatim>\<open>sref\<close> objects that own it (handles
  outside an \<^verbatim>\<open>sref\<close> count too).
\<close>

definition accounted :: "'v state \<Rightarrow> bool" where
  "accounted s \<longleftrightarrow>
     finite (dom (srefs s)) \<and>
     (\<forall>l r c. srefs s l = Some r \<and> ctrl (ptr (data r)) = Some c \<longrightarrow> blocks s c \<noteq> None) \<and>
     (\<forall>c n own. blocks s c = Some (n, own) \<longrightarrow> card (owners s c) \<le> n)"

text \<open>Destroying the \<^verbatim>\<open>sref\<close> objects of a list, one after the other.\<close>

fun destroy_all :: "loc list \<Rightarrow> 'v state \<Rightarrow> error + 'v state" where
  "destroy_all [] s = Inr s"
| "destroy_all (l # ls) s =
     (case sref_destroy l s of Inl e \<Rightarrow> Inl e | Inr s1 \<Rightarrow> destroy_all ls s1)"

subsection \<open>A small scenario\<close>

text \<open>
  The state after \<^verbatim>\<open>sref<int> p1(new int{ 9 })\<close> in a program that has nothing
  else: the integer is at address 10, its control block is 1 and \<^verbatim>\<open>p1\<close> is at 0.
\<close>

definition empty_state :: "nat state" where
  "empty_state = \<lparr>heap = Map.empty, blocks = Map.empty, srefs = Map.empty\<rparr>"

definition p1_ref :: sref where
  "p1_ref = \<lparr>data = \<lparr>ptr = \<lparr>stored = 10, ctrl = Some 1\<rparr>\<rparr>\<rparr>"

definition p1_state :: "nat state" where
  "p1_state = \<lparr>heap = [10 \<mapsto> 9], blocks = [1 \<mapsto> (1, 10)], srefs = [0 \<mapsto> p1_ref]\<rparr>"

text \<open>
  Then \<^verbatim>\<open>sref<int> p3(p1)\<close>, with \<^verbatim>\<open>p3\<close> at 1; then
  \<^verbatim>\<open>sref<int> p5(new int{ 18 })\<close>, with the integer at address 20, its control
  block 2 and \<^verbatim>\<open>p5\<close> at 2.
\<close>

definition p3_state :: "nat state" where
  "p3_state = \<lparr>heap = [10 \<mapsto> 9], blocks = [1 \<mapsto> (2, 10)],
               srefs = [0 \<mapsto> p1_ref, 1 \<mapsto> p1_ref]\<rparr>"

definition p5_ref :: sref where
  "p5_ref = \<lparr>data = \<lparr>ptr = \<lparr>stored = 20, ctrl = Some 2\<rparr>\<rparr>\<rparr>"

definition p5_state :: "nat state" where
  "p5_state = \<lparr>heap = [10 \<mapsto> 9, 20 \<mapsto> 18], blocks = [1 \<mapsto> (2, 10), 2 \<mapsto> (1, 20)],
               srefs = [0 \<mapsto> p1_ref, 1 \<mapsto> p1_ref, 2 \<mapsto> p5_ref]\<rparr>"


definition second_base :: "addr \<Rightarrow> addr" where
  "second_base p = p + 16"

text \<open>
  A second capture of the same raw pointer after \<^verbatim>\<open>p1\<close>, as in
  \<^verbatim>\<open>int* raw = new int{ 9 }; sref<int> p1(raw); sref<int> q(raw);\<close>, with
  \<^verbatim>\<open>q\<close> at 1 and its control block 2; then the conversion of \<^verbatim>\<open>p1\<close> into a
  reference at 2; then the destruction of \<^verbatim>\<open>q\<close>.
\<close>

definition q_ref :: sref where
  "q_ref = \<lparr>data = \<lparr>ptr = \<lparr>stored = 10, ctrl = Some 2\<rparr>\<rparr>\<rparr>"

definition twice_state :: "nat state" where
  "twice_state = \<lparr>heap = [10 \<mapsto> 9], blocks = [1 \<mapsto> (1, 10), 2 \<mapsto> (1, 10)],
                  srefs = [0 \<mapsto> p1_ref, 1 \<mapsto> q_ref]\<rparr>"



section \<open>Properties of \<^verbatim>\<open>NotNull\<close>\<close>

lemma NotNull_reachable_nonnull:
  "NotNull_reachable nulU nul conv w \<Longrightarrow> \<not> nul (ptr w)"
proof (induction rule: NotNull_reachable.induct)
  case (by_fwd u w)
  then show ?case by (auto simp: NotNull_fwd_def Let_def split: if_splits)
next
  case (by_val v w)
  then show ?case by (auto simp: NotNull_val_def Let_def split: if_splits)
next
  case (by_other other w)
  then show ?case
    by (auto simp: NotNull_other_def NotNull_fwd_def Let_def split: sum.splits if_splits)
next
  case (by_copy w)
  then show ?case by (simp add: NotNull_copy_def)
next
  case (by_assign w w')
  then show ?case by (simp add: NotNull_assign_def)
qed

text \<open>
  C1. In the checked build, every wrapper \<open>w\<close> that construction, copy, conversion from
  another wrapper and assignment can produce has a payload that is not null, so the
  accessor and the conversion to \<open>T\<close> return that payload and never end the process;
  and on any wrapper \<open>w'\<close> whatever, what the accessor returns is not null. (The null
  test is a function of the payload value, as it is for raw pointers and for the
  standard ownership handles; the constructors and the assignment copy their source,
  which they leave as it was, so there is no emptied state either.)
\<close>

theorem NotNull_never_null:
  "NotNull_reachable nulU nul conv w \<Longrightarrow>
     \<not> nul (ptr w) \<and> NotNull_get True nul w = Inr (ptr w)
     \<and> NotNull_operator_T True nul w = Inr (ptr w)
     \<and> (\<forall>p. NotNull_get True nul w' = Inr p \<longrightarrow> \<not> nul p)"
  using NotNull_reachable_nonnull [of nulU nul conv w]
  by (auto simp: NotNull_get_def NotNull_operator_T_def split: if_splits)

theorem NotNull_never_null_witness:
  "NotNull_reachable raw_is_null raw_is_null (\<lambda>u. u) (NotNull_assign \<lparr>ptr = 7\<rparr> (NotNull_copy \<lparr>ptr = 3\<rparr>))
   \<and> \<not> raw_is_null (ptr (NotNull_assign \<lparr>ptr = 7\<rparr> (NotNull_copy \<lparr>ptr = 3\<rparr>)))
   \<and> NotNull_get True raw_is_null (NotNull_assign \<lparr>ptr = 7\<rparr> (NotNull_copy \<lparr>ptr = 3\<rparr>)) = Inr 3"
proof -
  have a: "NotNull_reachable raw_is_null raw_is_null (\<lambda>u. u) \<lparr>ptr = 7\<rparr>"
    by (rule by_fwd [where u = 7]) (simp add: NotNull_fwd_def raw_is_null_def nullptr_def)
  have b: "NotNull_reachable raw_is_null raw_is_null (\<lambda>u. u) \<lparr>ptr = 3\<rparr>"
    by (rule by_val [where v = 3]) (simp add: NotNull_val_def raw_is_null_def nullptr_def)
  have r: "NotNull_reachable raw_is_null raw_is_null (\<lambda>u. u)
             (NotNull_assign \<lparr>ptr = 7\<rparr> (NotNull_copy \<lparr>ptr = 3\<rparr>))"
    by (rule by_assign [OF a by_copy [OF b]])
  from NotNull_never_null [OF r] r show ?thesis
    by (simp add: NotNull_assign_def NotNull_copy_def)
qed

text \<open>
  C2. In the checked build, each constructor of \<^verbatim>\<open>NotNull\<close> given a value that is
  null (after the conversion to \<open>T\<close>), and the accessor and the conversion to \<open>T\<close> on a
  wrapper whose payload is null, end in \<^verbatim>\<open>std::terminate()\<close>: the outcome is
  \<open>Terminated\<close>, not a returned value.
\<close>

theorem null_terminates:
  "(nul (conv u) \<longrightarrow> NotNull_fwd True nul conv u = Inl Terminated)
   \<and> (nul v \<longrightarrow> NotNull_val True nul v = Inl Terminated)
   \<and> (nulU (ptr other) \<or> nul (conv (ptr other)) \<longrightarrow>
        NotNull_other True nulU nul conv other = Inl Terminated)
   \<and> (nul (ptr w) \<longrightarrow> NotNull_get True nul w = Inl Terminated
                      \<and> NotNull_operator_T True nul w = Inl Terminated)"
  by (simp add: NotNull_fwd_def NotNull_val_def NotNull_other_def NotNull_get_def
      NotNull_operator_T_def)

theorem null_terminates_witness:
  "raw_is_null nullptr
   \<and> NotNull_fwd True raw_is_null (\<lambda>u. u) nullptr = Inl Terminated
   \<and> NotNull_val True raw_is_null nullptr = Inl Terminated
   \<and> NotNull_other True raw_is_null raw_is_null (\<lambda>u. u) \<lparr>ptr = nullptr\<rparr> = Inl Terminated
   \<and> NotNull_get True raw_is_null \<lparr>ptr = nullptr\<rparr> = Inl Terminated"
  using null_terminates [of raw_is_null "\<lambda>u. u" nullptr nullptr raw_is_null
      "\<lparr>ptr = nullptr\<rparr>" "\<lparr>ptr = nullptr\<rparr>"]
  by (simp add: raw_is_null_def)

text \<open>
  C3. Let \<open>v\<close> be a value of the payload type that is not null. In either build, the
  constructor from \<open>T\<close> given \<open>v\<close>, the forwarding constructor given a value \<open>u\<close> that
  converts to \<open>v\<close>, and the constructor from a wrapper \<open>other\<close> (one the accessor
  accepts) whose payload converts to \<open>v\<close>, each return a wrapper; the accessor of that
  wrapper returns \<open>v\<close>, and so does the conversion to \<open>T\<close>. On every wrapper \<open>w'\<close> the
  conversion to \<open>T\<close> returns what the accessor returns.
\<close>

theorem construct_then_get:
  "\<not> nul v \<Longrightarrow>
     (\<exists>w. NotNull_val chk nul v = Inr w \<and> NotNull_get chk nul w = Inr v
          \<and> NotNull_operator_T chk nul w = Inr v)
     \<and> (conv u = v \<longrightarrow>
          (\<exists>w. NotNull_fwd chk nul conv u = Inr w \<and> NotNull_get chk nul w = Inr v
               \<and> NotNull_operator_T chk nul w = Inr v))
     \<and> (conv (ptr other) = v \<and> (chk \<longrightarrow> \<not> nulU (ptr other)) \<longrightarrow>
          (\<exists>w. NotNull_other chk nulU nul conv other = Inr w \<and> NotNull_get chk nul w = Inr v
               \<and> NotNull_operator_T chk nul w = Inr v))
     \<and> NotNull_operator_T chk nul w' = NotNull_get chk nul w'"
  by (auto simp: NotNull_fwd_def NotNull_val_def NotNull_other_def NotNull_get_def
      NotNull_operator_T_def)

theorem construct_then_get_witness:
  "\<not> raw_is_null 5
   \<and> NotNull_val True raw_is_null 5 = Inr \<lparr>ptr = 5\<rparr>
   \<and> NotNull_fwd True raw_is_null (\<lambda>u. u) 5 = Inr \<lparr>ptr = 5\<rparr>
   \<and> NotNull_other True raw_is_null raw_is_null (\<lambda>u. u) \<lparr>ptr = 5\<rparr> = Inr \<lparr>ptr = 5\<rparr>
   \<and> NotNull_get True raw_is_null \<lparr>ptr = 5\<rparr> = Inr 5
   \<and> NotNull_operator_T True raw_is_null \<lparr>ptr = 5\<rparr> = Inr 5"
proof -
  have n: "\<not> raw_is_null 5" by (simp add: raw_is_null_def nullptr_def)
  from construct_then_get [where nul = raw_is_null and v = 5 and chk = True and conv = "\<lambda>u. u"
      and u = 5 and other = "\<lparr>ptr = 5\<rparr>" and nulU = raw_is_null and w' = "\<lparr>ptr = 5\<rparr>"] n
  show ?thesis
    by (auto simp: NotNull_val_def NotNull_fwd_def NotNull_other_def NotNull_get_def)
qed

text \<open>
  C8. When the accessors of two wrappers (of payload types \<open>T\<close> and \<open>U\<close>) return \<open>x\<close>
  and \<open>y\<close>, each of the six comparisons of the wrappers returns what the payload
  types' operator of the same name returns on \<open>x\<close> and \<open>y\<close>.
\<close>

theorem comparisons_delegate:
  "NotNull_get chk nulT a = Inr x \<Longrightarrow> NotNull_get chk nulU b = Inr y \<Longrightarrow>
     NotNull_eq chk nulT nulU ops a b = Inr (p_eq ops x y)
     \<and> NotNull_ne chk nulT nulU ops a b = Inr (p_ne ops x y)
     \<and> NotNull_lt chk nulT nulU ops a b = Inr (p_lt ops x y)
     \<and> NotNull_le chk nulT nulU ops a b = Inr (p_le ops x y)
     \<and> NotNull_gt chk nulT nulU ops a b = Inr (p_gt ops x y)
     \<and> NotNull_ge chk nulT nulU ops a b = Inr (p_ge ops x y)"
  by (simp add: NotNull_eq_def NotNull_ne_def NotNull_lt_def NotNull_le_def NotNull_gt_def
      NotNull_ge_def)

theorem comparisons_delegate_witness:
  "NotNull_get True raw_is_null \<lparr>ptr = 4\<rparr> = Inr 4
   \<and> NotNull_get True raw_is_null \<lparr>ptr = 9\<rparr> = Inr 9
   \<and> NotNull_eq True raw_is_null raw_is_null raw_ops \<lparr>ptr = 4\<rparr> \<lparr>ptr = 9\<rparr> = Inr False
   \<and> NotNull_ne True raw_is_null raw_is_null raw_ops \<lparr>ptr = 4\<rparr> \<lparr>ptr = 9\<rparr> = Inr True
   \<and> NotNull_lt True raw_is_null raw_is_null raw_ops \<lparr>ptr = 4\<rparr> \<lparr>ptr = 9\<rparr> = Inr True
   \<and> NotNull_le True raw_is_null raw_is_null raw_ops \<lparr>ptr = 4\<rparr> \<lparr>ptr = 9\<rparr> = Inr True
   \<and> NotNull_gt True raw_is_null raw_is_null raw_ops \<lparr>ptr = 4\<rparr> \<lparr>ptr = 9\<rparr> = Inr False
   \<and> NotNull_ge True raw_is_null raw_is_null raw_ops \<lparr>ptr = 4\<rparr> \<lparr>ptr = 9\<rparr> = Inr False"
proof -
  have a: "NotNull_get True raw_is_null \<lparr>ptr = 4\<rparr> = Inr 4"
    by (simp add: NotNull_get_def raw_is_null_def nullptr_def)
  have b: "NotNull_get True raw_is_null \<lparr>ptr = 9\<rparr> = Inr 9"
    by (simp add: NotNull_get_def raw_is_null_def nullptr_def)
  from comparisons_delegate [OF a b, of raw_ops] a b show ?thesis
    by (simp add: raw_ops_def)
qed

section \<open>Properties of \<^verbatim>\<open>sref\<close>\<close>

subsection \<open>Owners of a control block\<close>

lemma owners_subset: "owners s c \<subseteq> dom (srefs s)"
  by (auto simp: owners_def)



subsection \<open>The operations on a live reference\<close>

lemma sref_get_refers: "refers s l a x \<Longrightarrow> sref_get chk l s = Inr a"
  by (auto simp: refers_def sref_get_def NotNull_get_def sp_is_null_def split: option.splits)

lemma sref_read_refers: "refers s l a x \<Longrightarrow> sref_read chk l s = Inr x"
  by (simp add: sref_read_def sref_get_refers [of s l a x] refers_def split: option.splits)

lemma sref_rebuild: "\<lparr>data = \<lparr>ptr = ptr (data r)\<rparr>\<rparr> = (r::sref)"
  by simp

lemma sref_copy_net:
  assumes "srefs s A = Some r" "ctrl (ptr (data r)) = Some c" "blocks s c = Some (n, a)"
  shows "sref_copy B A s = Inr (s\<lparr>blocks := (blocks s)(c \<mapsto> (Suc n, a)), srefs := (srefs s)(B \<mapsto> r)\<rparr>)"
  using assms by (simp add: sref_copy_def sp_copy_def NotNull_copy_def sref_rebuild)



subsection \<open>The use counts account for the references\<close>

lemma accountedI:
  assumes "finite (dom (srefs s))"
    and "\<And>l r c. srefs s l = Some r \<Longrightarrow> ctrl (ptr (data r)) = Some c \<Longrightarrow> blocks s c \<noteq> None"
    and "\<And>c n own. blocks s c = Some (n, own) \<Longrightarrow> card (owners s c) \<le> n"
  shows "accounted s"
  unfolding accounted_def using assms by blast

lemma accounted_finite: "accounted s \<Longrightarrow> finite (owners s c)"
  unfolding accounted_def using owners_subset [of s c] finite_subset by blast

lemma accounted_block:
  "accounted s \<Longrightarrow> srefs s l = Some r \<Longrightarrow> ctrl (ptr (data r)) = Some c \<Longrightarrow> blocks s c \<noteq> None"
  unfolding accounted_def by blast

lemma accounted_count: "accounted s \<Longrightarrow> blocks s c = Some (n, own) \<Longrightarrow> card (owners s c) \<le> n"
  unfolding accounted_def by blast

lemma accounted_empty: "accounted empty_state"
  by (simp add: accounted_def empty_state_def owners_def)

lemma owners_put:
  "owners (s\<lparr>srefs := (srefs s)(l \<mapsto> r)\<rparr>) c \<subseteq>
     (if ctrl (ptr (data r)) = Some c then insert l (owners s c) else owners s c)"
  by (auto simp: owners_def)

lemma owners_drop: "owners (s\<lparr>srefs := (srefs s)(l := None)\<rparr>) c = owners s c - {l}"
  by (auto simp: owners_def)

lemma owners_blocks [simp]: "owners (s\<lparr>blocks := b\<rparr>) c = owners s c"
  by (simp add: owners_def)

lemma owners_heap [simp]: "owners (s\<lparr>heap := h\<rparr>) c = owners s c"
  by (simp add: owners_def)

lemma card_owners_put:
  assumes "accounted s"
  shows "card (owners (s\<lparr>srefs := (srefs s)(l \<mapsto> r)\<rparr>) c) \<le>
           (if ctrl (ptr (data r)) = Some c then Suc (card (owners s c)) else card (owners s c))"
proof -
  have f: "finite (owners s c)" by (rule accounted_finite [OF assms])
  show ?thesis
  proof (cases "ctrl (ptr (data r)) = Some c")
    case True
    with owners_put [of s l r c] have "owners (s\<lparr>srefs := (srefs s)(l \<mapsto> r)\<rparr>) c \<subseteq> insert l (owners s c)"
      by simp
    then have "card (owners (s\<lparr>srefs := (srefs s)(l \<mapsto> r)\<rparr>) c) \<le> card (insert l (owners s c))"
      using f by (simp add: card_mono)
    also have "\<dots> \<le> Suc (card (owners s c))" using f by (simp add: card_insert_if)
    finally show ?thesis using True by simp
  next
    case False
    with owners_put [of s l r c] have "owners (s\<lparr>srefs := (srefs s)(l \<mapsto> r)\<rparr>) c \<subseteq> owners s c"
      by simp
    then have "card (owners (s\<lparr>srefs := (srefs s)(l \<mapsto> r)\<rparr>) c) \<le> card (owners s c)"
      using f by (simp add: card_mono)
    with False show ?thesis by simp
  qed
qed

text \<open>A new \<^verbatim>\<open>sref\<close> on a handle without control block.\<close>

lemma accounted_put_free:
  assumes a: "accounted s" and n: "ctrl (ptr (data r)) = None"
  shows "accounted (s\<lparr>srefs := (srefs s)(l \<mapsto> r)\<rparr>)" (is "accounted ?t")
proof (rule accountedI)
  show "finite (dom (srefs ?t))" using a by (simp add: accounted_def)
next
  fix l' r' c assume "srefs ?t l' = Some r'" "ctrl (ptr (data r')) = Some c"
  with n have "srefs s l' = Some r'" by (auto split: if_splits)
  from accounted_block [OF a this \<open>ctrl (ptr (data r')) = Some c\<close>] show "blocks ?t c \<noteq> None" by simp
next
  fix c m own assume "blocks ?t c = Some (m, own)"
  then have b: "blocks s c = Some (m, own)" by simp
  from card_owners_put [OF a, of l r c] n accounted_count [OF a b]
  show "card (owners ?t c) \<le> m" by simp
qed

text \<open>A new \<^verbatim>\<open>sref\<close> on a handle that takes one more share of its control block.\<close>

lemma accounted_put_share:
  assumes a: "accounted s" and c: "ctrl (ptr (data r)) = Some c" and b: "blocks s c = Some (n, own)"
  shows "accounted (s\<lparr>blocks := (blocks s)(c \<mapsto> (Suc n, own)), srefs := (srefs s)(l \<mapsto> r)\<rparr>)"
    (is "accounted ?t")
proof (rule accountedI)
  show "finite (dom (srefs ?t))" using a by (simp add: accounted_def)
next
  fix l' r' c' assume h: "srefs ?t l' = Some r'" "ctrl (ptr (data r')) = Some c'"
  show "blocks ?t c' \<noteq> None"
  proof (cases "c' = c")
    case True then show ?thesis by simp
  next
    case False
    with h c have "srefs s l' = Some r'" by (auto split: if_splits)
    from accounted_block [OF a this h(2)] False show ?thesis by simp
  qed
next
  fix c' m own' assume t: "blocks ?t c' = Some (m, own')"
  have o: "owners ?t c' = owners (s\<lparr>srefs := (srefs s)(l \<mapsto> r)\<rparr>) c'" by (simp add: owners_def)
  show "card (owners ?t c') \<le> m"
  proof (cases "c' = c")
    case True
    with t have "m = Suc n" by simp
    with card_owners_put [OF a, of l r c] c accounted_count [OF a b] o True show ?thesis by simp
  next
    case False
    with t have b': "blocks s c' = Some (m, own')" by simp
    from card_owners_put [OF a, of l r c'] c False accounted_count [OF a b'] o
    show ?thesis by simp
  qed
qed

text \<open>A new \<^verbatim>\<open>sref\<close> on a handle with a new control block.\<close>

lemma accounted_put_new:
  assumes a: "accounted s" and c: "ctrl (ptr (data r)) = Some c" and f: "c \<notin> dom (blocks s)"
  shows "accounted (s\<lparr>blocks := (blocks s)(c \<mapsto> (1, own)), srefs := (srefs s)(l \<mapsto> r)\<rparr>)"
    (is "accounted ?t")
proof (rule accountedI)
  show "finite (dom (srefs ?t))" using a by (simp add: accounted_def)
next
  fix l' r' c' assume h: "srefs ?t l' = Some r'" "ctrl (ptr (data r')) = Some c'"
  show "blocks ?t c' \<noteq> None"
  proof (cases "c' = c")
    case True then show ?thesis by simp
  next
    case False
    with h c have "srefs s l' = Some r'" by (auto split: if_splits)
    from accounted_block [OF a this h(2)] False show ?thesis by simp
  qed
next
  fix c' m own' assume t: "blocks ?t c' = Some (m, own')"
  have o: "owners ?t c' = owners (s\<lparr>srefs := (srefs s)(l \<mapsto> r)\<rparr>) c'" by (simp add: owners_def)
  show "card (owners ?t c') \<le> m"
  proof (cases "c' = c")
    case True
    have "owners s c = {}"
    proof (rule ccontr)
      assume "owners s c \<noteq> {}"
      then obtain k q where "srefs s k = Some q" "ctrl (ptr (data q)) = Some c"
        by (auto simp: owners_def)
      from accounted_block [OF a this] f show False by auto
    qed
    with card_owners_put [OF a, of l r c] c t o True show ?thesis by simp
  next
    case False
    with t have b': "blocks s c' = Some (m, own')" by simp
    from card_owners_put [OF a, of l r c'] c False accounted_count [OF a b'] o
    show ?thesis by simp
  qed
qed

lemma card_owners_drop:
  assumes "accounted s"
  shows "card (owners (s\<lparr>srefs := (srefs s)(l := None)\<rparr>) c) \<le> card (owners s c)"
  using accounted_finite [OF assms, of c] by (simp add: owners_drop card_Diff1_le)

lemma accounted_drop_free:
  assumes a: "accounted s" and d: "srefs s l = Some r" and n: "ctrl (ptr (data r)) = None"
  shows "accounted (s\<lparr>srefs := (srefs s)(l := None)\<rparr>)" (is "accounted ?t")
proof (rule accountedI)
  show "finite (dom (srefs ?t))" using a by (simp add: accounted_def)
next
  fix l' r' c assume h: "srefs ?t l' = Some r'" "ctrl (ptr (data r')) = Some c"
  then have "srefs s l' = Some r'" by (auto split: if_splits)
  from accounted_block [OF a this h(2)] show "blocks ?t c \<noteq> None" by simp
next
  fix c m own assume "blocks ?t c = Some (m, own)"
  then have b: "blocks s c = Some (m, own)" by simp
  from card_owners_drop [OF a, of l c] accounted_count [OF a b]
  show "card (owners ?t c) \<le> m" by simp
qed

lemma accounted_drop_share:
  assumes a: "accounted s" and d: "srefs s l = Some r" and c: "ctrl (ptr (data r)) = Some c"
    and b: "blocks s c = Some (n, own)" and n: "1 < n"
  shows "accounted (s\<lparr>blocks := (blocks s)(c \<mapsto> (n - 1, own)), srefs := (srefs s)(l := None)\<rparr>)"
    (is "accounted ?t")
proof (rule accountedI)
  show "finite (dom (srefs ?t))" using a by (simp add: accounted_def)
next
  fix l' r' c' assume h: "srefs ?t l' = Some r'" "ctrl (ptr (data r')) = Some c'"
  then have "srefs s l' = Some r'" by (auto split: if_splits)
  from accounted_block [OF a this h(2)] show "blocks ?t c' \<noteq> None" by simp
next
  fix c' m own' assume t: "blocks ?t c' = Some (m, own')"
  have o: "owners ?t c' = owners s c' - {l}" by (auto simp: owners_def)
  show "card (owners ?t c') \<le> m"
  proof (cases "c' = c")
    case True
    have "l \<in> owners s c" using d c by (auto simp: owners_def)
    then have "card (owners s c - {l}) = card (owners s c) - 1"
      using accounted_finite [OF a, of c] by simp
    moreover from t True have "m = n - 1" by simp
    moreover from accounted_count [OF a b] have "card (owners s c) - 1 \<le> n - 1"
      by (rule diff_le_mono)
    ultimately show ?thesis using True o by simp
  next
    case False
    with t have b': "blocks s c' = Some (m, own')" by simp
    have "card (owners s c' - {l}) \<le> card (owners s c')"
      using accounted_finite [OF a, of c'] by (simp add: card_Diff1_le)
    with accounted_count [OF a b'] o show ?thesis by simp
  qed
qed

lemma accounted_drop_last:
  assumes a: "accounted s" and d: "srefs s l = Some r" and c: "ctrl (ptr (data r)) = Some c"
    and b: "blocks s c = Some (n, own)" and n: "\<not> 1 < n"
  shows "accounted (s\<lparr>heap := h, blocks := (blocks s)(c := None), srefs := (srefs s)(l := None)\<rparr>)"
    (is "accounted ?t")
proof (rule accountedI)
  show "finite (dom (srefs ?t))" using a by (simp add: accounted_def)
next
  fix l' r' c' assume h: "srefs ?t l' = Some r'" "ctrl (ptr (data r')) = Some c'"
  then have s': "srefs s l' = Some r'" and ne: "l' \<noteq> l" by (auto split: if_splits)
  have "c' \<noteq> c"
  proof
    assume "c' = c"
    with s' h(2) d c ne have "{l, l'} \<subseteq> owners s c" by (auto simp: owners_def)
    then have "card {l, l'} \<le> card (owners s c)"
      using accounted_finite [OF a, of c] by (simp add: card_mono)
    with ne accounted_count [OF a b] n show False by simp
  qed
  with accounted_block [OF a s' h(2)] show "blocks ?t c' \<noteq> None" by simp
next
  fix c' m own' assume t: "blocks ?t c' = Some (m, own')"
  then have b': "blocks s c' = Some (m, own')" by (simp split: if_splits)
  have o: "owners ?t c' = owners s c' - {l}" by (auto simp: owners_def)
  have "card (owners s c' - {l}) \<le> card (owners s c')"
    using accounted_finite [OF a, of c'] by (simp add: card_Diff1_le)
  with accounted_count [OF a b'] o show "card (owners ?t c') \<le> m" by simp
qed

lemma accounted_sref_destroy:
  assumes a: "accounted s" and r: "sref_destroy l s = Inr t"
  shows "accounted t"
proof -
  from r obtain q where q: "srefs s l = Some q"
    by (auto simp: sref_destroy_def split: option.splits)
  show ?thesis
  proof (cases "ctrl (ptr (data q))")
    case None
    with r q have "t = s\<lparr>srefs := (srefs s)(l := None)\<rparr>"
      by (simp add: sref_destroy_def sp_release_def)
    with accounted_drop_free [OF a q None] show ?thesis by simp
  next
    case (Some c)
    with r q obtain n own where b: "blocks s c = Some (n, own)"
      by (auto simp: sref_destroy_def sp_release_def split: option.splits)
    show ?thesis
    proof (cases "1 < n")
      case True
      with r q Some b
      have "t = s\<lparr>blocks := (blocks s)(c \<mapsto> (n - 1, own)), srefs := (srefs s)(l := None)\<rparr>"
        by (simp add: sref_destroy_def sp_release_def)
      with accounted_drop_share [OF a q Some b True] show ?thesis by simp
    next
      case False
      with r q Some b
      have "t = s\<lparr>heap := (if own = nullptr then heap s else (heap s)(own := None)),
                  blocks := (blocks s)(c := None), srefs := (srefs s)(l := None)\<rparr>"
        by (auto simp: sref_destroy_def sp_release_def split: if_splits)
      with accounted_drop_last [OF a q Some b False] show ?thesis by simp
    qed
  qed
qed

lemma accounted_sref_copy:
  assumes a: "accounted s" and r: "sref_copy this other s = Inr t"
  shows "accounted t"
proof -
  from r obtain q where q: "srefs s other = Some q"
    by (auto simp: sref_copy_def split: option.splits)
  show ?thesis
  proof (cases "ctrl (ptr (data q))")
    case None
    with r q have "t = s\<lparr>srefs := (srefs s)(this \<mapsto> q)\<rparr>"
      by (simp add: sref_copy_def sp_copy_def NotNull_copy_def sref_rebuild)
    with accounted_put_free [OF a None] show ?thesis by simp
  next
    case (Some c)
    with r q obtain n own where b: "blocks s c = Some (n, own)"
      by (auto simp: sref_copy_def sp_copy_def NotNull_copy_def split: option.splits)
    with r q Some
    have "t = s\<lparr>blocks := (blocks s)(c \<mapsto> (Suc n, own)), srefs := (srefs s)(this \<mapsto> q)\<rparr>"
      by (simp add: sref_copy_def sp_copy_def NotNull_copy_def sref_rebuild)
    with accounted_put_share [OF a Some b] show ?thesis by simp
  qed
qed

lemma accounted_sref_move:
  "accounted s \<Longrightarrow> sref_move this corpse s = Inr t \<Longrightarrow> accounted t"
  using accounted_sref_copy [of s this corpse t] by (simp add: sref_move_def sref_copy_def)

lemma accounted_sref_from_shared:
  assumes a: "accounted s" and r: "sref_from_shared chk this p s = Inr t"
  shows "accounted t"
proof (cases "ctrl p")
  case None
  with r have "t = s\<lparr>srefs := (srefs s)(this \<mapsto> \<lparr>data = \<lparr>ptr = p\<rparr>\<rparr>)\<rparr>"
    by (auto simp: sref_from_shared_def sp_copy_def NotNull_fwd_def split: if_splits)
  with accounted_put_free [OF a, of "\<lparr>data = \<lparr>ptr = p\<rparr>\<rparr>" this] None show ?thesis by simp
next
  case (Some c)
  with r obtain n own where b: "blocks s c = Some (n, own)"
    by (auto simp: sref_from_shared_def sp_copy_def split: option.splits)
  with r Some
  have "t = s\<lparr>blocks := (blocks s)(c \<mapsto> (Suc n, own)),
              srefs := (srefs s)(this \<mapsto> \<lparr>data = \<lparr>ptr = p\<rparr>\<rparr>)\<rparr>"
    by (auto simp: sref_from_shared_def sp_copy_def NotNull_fwd_def split: if_splits)
  with accounted_put_share [OF a, of "\<lparr>data = \<lparr>ptr = p\<rparr>\<rparr>" c n own this] Some b
  show ?thesis by simp
qed

lemma accounted_sref_from_ptr:
  assumes a: "accounted s" and f: "c \<notin> dom (blocks s)" and r: "sref_from_ptr chk c this p s = Inr t"
  shows "accounted t"
proof -
  let ?q = "\<lparr>data = \<lparr>ptr = \<lparr>stored = p, ctrl = Some c\<rparr>\<rparr>\<rparr>"
  from r have "t = s\<lparr>blocks := (blocks s)(c \<mapsto> (1, p)), srefs := (srefs s)(this \<mapsto> ?q)\<rparr>"
    by (auto simp: sref_from_ptr_def sp_make_def NotNull_val_def split: if_splits)
  with accounted_put_new [OF a _ f, where r = ?q and own = p and l = this] show ?thesis by simp
qed

lemma accounted_sref_from_value:
  assumes a: "accounted s" and f: "c \<notin> dom (blocks s)"
    and r: "sref_from_value chk x c this v s = Inr t"
  shows "accounted t"
proof -
  have "accounted (s\<lparr>heap := (heap s)(x \<mapsto> v)\<rparr>)"
    using a by (simp add: accounted_def)
  moreover have "c \<notin> dom (blocks (s\<lparr>heap := (heap s)(x \<mapsto> v)\<rparr>))" using f by simp
  ultimately show ?thesis using r unfolding sref_from_value_def
    by (rule accounted_sref_from_ptr)
qed

lemma accounted_sref_assign:
  "accounted s \<Longrightarrow> sref_assign asg chk this other s = Inr (l, t) \<Longrightarrow> accounted t"
  by (auto simp: sref_assign_def accounted_def split: if_splits sum.splits option.splits)

lemma accounted_sref_write:
  "accounted s \<Longrightarrow> sref_write chk this v s = Inr t \<Longrightarrow> accounted t"
  by (auto simp: sref_write_def accounted_def split: sum.splits option.splits)

lemma accounted_sref_convert:
  assumes a: "accounted s" and r: "sref_convert up chk this result s = Inr t"
  shows "accounted t"
proof -
  from r obtain q where q: "srefs s this = Some q"
    by (auto simp: sref_convert_def split: option.splits)
  let ?py = "sp_convert up (ptr (data q))"
  have cp: "ctrl ?py = ctrl (ptr (data q))" by (simp add: sp_convert_def)
  show ?thesis
  proof (cases "ctrl (ptr (data q))")
    case None
    with r q have "t = s\<lparr>srefs := (srefs s)(result \<mapsto> \<lparr>data = \<lparr>ptr = ?py\<rparr>\<rparr>)\<rparr>"
      by (auto simp: sref_convert_def sref_from_shared_def sp_copy_def sp_release_def
          sp_convert_def NotNull_get_def NotNull_fwd_def Let_def split: if_splits)
    with accounted_put_free [OF a, of "\<lparr>data = \<lparr>ptr = ?py\<rparr>\<rparr>" result] None cp
    show ?thesis by simp
  next
    case (Some c)
    with r q obtain n own where b: "blocks s c = Some (n, own)"
      by (auto simp: sref_convert_def sp_copy_def NotNull_get_def
          split: option.splits if_splits)
    with r q Some
    have "t = s\<lparr>blocks := (blocks s)(c \<mapsto> (Suc n, own)),
                srefs := (srefs s)(result \<mapsto> \<lparr>data = \<lparr>ptr = ?py\<rparr>\<rparr>)\<rparr>"
      by (auto simp: sref_convert_def sref_from_shared_def sp_copy_def sp_release_def
          sp_convert_def NotNull_get_def NotNull_fwd_def Let_def split: if_splits)
    with accounted_put_share [OF a, of "\<lparr>data = \<lparr>ptr = ?py\<rparr>\<rparr>" c n own result] Some b cp
    show ?thesis by simp
  qed
qed

lemma accounted_owners:
  "accounted s \<Longrightarrow> blocks s c = Some (n, own) \<Longrightarrow> finite (owners s c) \<and> card (owners s c) \<le> n"
  using accounted_finite accounted_count by blast

subsection \<open>The constructors from a pointer and from a value, and the scenario\<close>

lemma sref_from_ptr_net:
  "p \<noteq> nullptr \<Longrightarrow> sref_from_ptr chk c this p s =
     Inr (s\<lparr>blocks := (blocks s)(c \<mapsto> (1, p)),
            srefs := (srefs s)(this \<mapsto> \<lparr>data = \<lparr>ptr = \<lparr>stored = p, ctrl = Some c\<rparr>\<rparr>\<rparr>)\<rparr>)"
  by (simp add: sref_from_ptr_def sp_make_def NotNull_val_def sp_is_null_def)

lemma sref_from_ptr_null: "sref_from_ptr True c this nullptr s = Inl Terminated"
  by (simp add: sref_from_ptr_def sp_make_def NotNull_val_def sp_is_null_def)

lemma sref_from_shared_null:
  "sp_is_null p \<Longrightarrow> sp_copy p s = Inr s1 \<Longrightarrow> sref_from_shared True this p s = Inl Terminated"
  by (simp add: sref_from_shared_def NotNull_fwd_def)

lemma p1_state_built: "sref_from_value True 10 1 0 9 empty_state = Inr p1_state"
  by (simp add: sref_from_value_def sref_from_ptr_def sp_make_def NotNull_val_def sp_is_null_def
      nullptr_def empty_state_def p1_state_def p1_ref_def)

lemma p1_refers: "refers p1_state 0 10 9"
  by (simp add: refers_def p1_state_def p1_ref_def nullptr_def)

lemma p1_srefs: "srefs p1_state 0 = Some p1_ref"
  by (simp add: p1_state_def)

lemma p3_state_built: "sref_copy 1 0 p1_state = Inr p3_state"
  by (simp add: sref_copy_def sp_copy_def NotNull_copy_def p1_state_def p3_state_def p1_ref_def
      Let_def numeral_2_eq_2)

lemma p5_state_built: "sref_from_value True 20 2 2 18 p3_state = Inr p5_state"
  by (simp add: sref_from_value_def sref_from_ptr_def sp_make_def NotNull_val_def sp_is_null_def
      nullptr_def p3_state_def p5_state_def p5_ref_def)

lemma p5_refers:
  "refers p5_state 0 10 9" "refers p5_state 1 10 9" "refers p5_state 2 20 18"
  by (simp_all add: refers_def p5_state_def p1_ref_def p5_ref_def nullptr_def)

lemma p3_refers: "refers p3_state 0 10 9" "refers p3_state 1 10 9"
  by (simp_all add: refers_def p3_state_def p1_ref_def nullptr_def)



lemma convert_then_destroy_all:
  "\<exists>s' t. sref_convert second_base True 0 1 p1_state = Inr s' \<and> destroy_all [0, 1] s' = Inr t
     \<and> heap t 10 = None \<and> blocks t 1 = None \<and> srefs t = Map.empty"
  by (simp add: sref_convert_def sref_from_shared_def sref_destroy_def sp_copy_def sp_release_def
      sp_convert_def ptr_convert_def second_base_def NotNull_get_def NotNull_fwd_def
      sp_is_null_def nullptr_def p1_state_def p1_ref_def Let_def)

lemma twice_accounted: "accounted twice_state"
proof -
  have "accounted p1_state"
    using accounted_sref_from_value [OF accounted_empty _ p1_state_built]
    by (simp add: empty_state_def)
  moreover have "sref_from_ptr True 2 1 10 p1_state = Inr twice_state"
    by (simp add: sref_from_ptr_def sp_make_def NotNull_val_def sp_is_null_def nullptr_def
        p1_state_def twice_state_def q_ref_def)
  moreover have "2 \<notin> dom (blocks p1_state)" by (simp add: p1_state_def)
  ultimately show ?thesis using accounted_sref_from_ptr by blast
qed

subsection \<open>Assignment\<close>

text \<open>
  C4. Let \<open>A\<close> and \<open>B\<close> be live references whose handles point to the live objects
  at \<open>a\<close> and \<open>b\<close>, holding \<open>x\<close> and \<open>y\<close>. Then \<^verbatim>\<open>A = B\<close> returns
  \<^verbatim>\<open>A\<close>; no \<^verbatim>\<open>sref\<close> and no control block changes, so \<open>A\<close> still wraps the
  handle it wrapped; when the two are different \<^verbatim>\<open>sref\<close> objects, the only change
  is that the object at \<open>a\<close> now holds what the copy assignment of \<open>T\<close> makes of \<open>x\<close>
  and \<open>y\<close>, which is \<open>y\<close> for a plain copy, and reading through \<open>A\<close> gives that
  value; when they are the same \<^verbatim>\<open>sref\<close> object, the state is unchanged.
\<close>

theorem assign_through:
  assumes "refers s A a x" and "refers s B b y"
  shows "\<exists>s'. sref_assign asg chk A B s = Inr (A, s')
           \<and> srefs s' = srefs s \<and> blocks s' = blocks s
           \<and> heap s' = (if A = B then heap s else (heap s)(a \<mapsto> asg x y))
           \<and> sref_read chk A s' = Inr (if A = B then x else asg x y)
           \<and> (asg = (\<lambda>old new. new) \<longrightarrow> sref_read chk A s' = Inr y)
           \<and> (A = B \<longrightarrow> s' = s)"
proof (cases "A = B")
  case True
  with assms have "x = y" by (auto simp: refers_def split: option.splits)
  with True assms show ?thesis
    by (simp add: sref_assign_def sref_read_refers [of s B b y])
next
  case False
  let ?s' = "s\<lparr>heap := (heap s)(a \<mapsto> asg x y)\<rparr>"
  from assms have h: "heap s a = Some x" "heap s b = Some y"
    by (auto simp: refers_def split: option.splits)
  have r: "refers ?s' A a (asg x y)"
    using assms(1) by (auto simp: refers_def split: option.splits)
  from False h have "sref_assign asg chk A B s = Inr (A, ?s')"
    by (simp add: sref_assign_def sref_get_refers [OF assms(1)] sref_get_refers [OF assms(2)])
  with False sref_read_refers [OF r] show ?thesis by auto
qed

theorem assign_through_witness:
  "refers p5_state 0 10 9 \<and> refers p5_state 2 20 18
   \<and> (\<exists>s'. sref_assign (\<lambda>old new. new) True 0 2 p5_state = Inr (0, s')
         \<and> srefs s' = srefs p5_state \<and> sref_read True 0 s' = Inr 18
         \<and> sref_read True 1 s' = Inr 18 \<and> s' \<noteq> p5_state)
   \<and> sref_assign (\<lambda>old new. new) True 0 0 p5_state = Inr (0, p5_state)"
proof -
  from assign_through [OF p5_refers(1) p5_refers(3), of "\<lambda>old new. new" True]
  obtain s' where s': "sref_assign (\<lambda>old new. new) True 0 2 p5_state = Inr (0, s')"
      "srefs s' = srefs p5_state" "heap s' = (heap p5_state)(10 \<mapsto> 18)"
      "sref_read True 0 s' = Inr 18"
    by auto
  from s'(2,3) have "refers s' 1 10 18"
    by (simp add: refers_def p5_state_def p1_ref_def nullptr_def)
  then have r: "sref_read True 1 s' = Inr 18" by (rule sref_read_refers)
  from s'(3) have ne: "s' \<noteq> p5_state" by (auto simp: p5_state_def dest: fun_cong [where x = 10])
  from assign_through [OF p5_refers(1) p5_refers(1), of "\<lambda>old new. new" True]
  have "sref_assign (\<lambda>old new. new) True 0 0 p5_state = Inr (0, p5_state)" by auto
  with s' r ne p5_refers show ?thesis by blast
qed

text \<open>
  C10. Let \<open>A\<close> and \<open>B\<close> be two different \<^verbatim>\<open>sref\<close> objects whose handles point
  to the same live object at \<open>a\<close>, holding \<open>x\<close>. Then \<^verbatim>\<open>A = B\<close> does not take
  the early return: it calls the copy assignment of \<open>T\<close> on that object with itself
  (the object then holds \<open>asg x x\<close>) and returns \<^verbatim>\<open>A\<close>; whereas \<^verbatim>\<open>A = A\<close>
  returns \<^verbatim>\<open>A\<close> with the state untouched.
\<close>

theorem assign_same_object:
  assumes "A \<noteq> B" and "refers s A a x" and "refers s B a x"
  shows "sref_assign asg chk A B s = Inr (A, s\<lparr>heap := (heap s)(a \<mapsto> asg x x)\<rparr>)
         \<and> sref_assign asg chk A A s = Inr (A, s)"
  using assms(1) sref_get_refers [OF assms(2)] sref_get_refers [OF assms(3)] assms(2)
  by (auto simp: sref_assign_def refers_def split: option.splits)

theorem assign_same_object_witness:
  "(0::nat) \<noteq> 1 \<and> refers p3_state 0 10 9 \<and> refers p3_state 1 10 9
   \<and> sref_assign (\<lambda>old new. old + new) True 0 1 p3_state
       = Inr (0, p3_state\<lparr>heap := [10 \<mapsto> 18]\<rparr>)
   \<and> sref_assign (\<lambda>old new. old + new) True 0 0 p3_state = Inr (0, p3_state)"
proof -
  have ne: "(0::nat) \<noteq> 1" by simp
  from assign_same_object [OF ne p3_refers, of "\<lambda>old new. old + new" True] p3_refers
  show ?thesis by (simp add: p3_state_def)
qed

subsection \<open>Copy, move and conversion\<close>

text \<open>
  C5. Let \<open>A\<close> be a live reference whose handle owns a live control block and points
  to the live object at \<open>a\<close>. Copy-constructing \<open>B\<close> from \<open>A\<close> returns; \<open>B\<close> and \<open>A\<close>
  wrap the same handle (same stored pointer, same control block); the heap is the one
  before and there is no new control block; and a value written through \<open>B\<close> is read
  through \<open>A\<close>, a value written through \<open>A\<close> is read through \<open>B\<close>.
\<close>

theorem copy_shares_object:
  assumes d: "srefs s A = Some r" and c: "ctrl (ptr (data r)) = Some c"
    and b: "blocks s c = Some (n, own)" and x: "refers s A a x" and ne: "B \<noteq> A"
  shows "\<exists>s'. sref_copy B A s = Inr s'
           \<and> srefs s' A = Some r \<and> srefs s' B = Some r
           \<and> heap s' = heap s \<and> dom (blocks s') = dom (blocks s)
           \<and> (\<forall>v. \<exists>t. sref_write chk B v s' = Inr t \<and> sref_read chk A t = Inr v)
           \<and> (\<forall>v. \<exists>t. sref_write chk A v s' = Inr t \<and> sref_read chk B t = Inr v)"
proof -
  let ?s' = "s\<lparr>blocks := (blocks s)(c \<mapsto> (Suc n, own)), srefs := (srefs s)(B \<mapsto> r)\<rparr>"
  have cp: "sref_copy B A s = Inr ?s'" by (rule sref_copy_net [OF d c b])
  from x d have a: "stored (ptr (data r)) = a" "a \<noteq> nullptr" "heap s a = Some x"
    by (auto simp: refers_def)
  have rA: "refers ?s' A a x" using d a ne by (simp add: refers_def)
  have rB: "refers ?s' B a x" using a by (simp add: refers_def)
  have wr: "sref_write chk l v ?s' = Inr (?s'\<lparr>heap := (heap ?s')(a \<mapsto> v)\<rparr>)"
    if "refers ?s' l a x" for l v
    using sref_get_refers [OF that] a by (simp add: sref_write_def)
  have rd: "sref_read chk l (?s'\<lparr>heap := (heap ?s')(a \<mapsto> v)\<rparr>) = Inr v"
    if "refers ?s' l a x" for l v
  proof -
    from that have "refers (?s'\<lparr>heap := (heap ?s')(a \<mapsto> v)\<rparr>) l a v"
      by (auto simp: refers_def split: option.splits if_splits)
    then show ?thesis by (rule sref_read_refers)
  qed
  have dm: "dom (blocks ?s') = dom (blocks s)" using b by auto
  from cp d ne dm wr [OF rB] wr [OF rA] rd [OF rA] rd [OF rB] show ?thesis
    by (intro exI [of _ ?s']) simp
qed

theorem copy_shares_object_witness:
  "refers p1_state 0 10 9 \<and> (1::nat) \<noteq> 0 \<and>
   (\<exists>s'. sref_copy 1 0 p1_state = Inr s' \<and> srefs s' 1 = srefs s' 0 \<and> heap s' = heap p1_state
      \<and> (\<exists>t. sref_write True 1 42 s' = Inr t \<and> sref_read True 0 t = Inr 42)
      \<and> (\<exists>t. sref_write True 0 42 s' = Inr t \<and> sref_read True 1 t = Inr 42))"
proof -
  have c: "ctrl (ptr (data p1_ref)) = Some 1" by (simp add: p1_ref_def)
  have b: "blocks p1_state 1 = Some (1, 10)" by (simp add: p1_state_def)
  have ne: "(1::nat) \<noteq> 0" by simp
  from copy_shares_object [OF p1_srefs c b p1_refers ne, of True] p1_refers
  show ?thesis by fastforce
qed

text \<open>
  C9. The move constructor returns what the copy constructor returns, in every state.
  When the source \<open>corpse\<close> is a live reference whose handle owns a live control block
  and points to the live object at \<open>a\<close>, the construction returns; afterwards the
  source wraps the handle it wrapped, source and new reference both point to the live
  object at \<open>a\<close> (so neither is null), and the use count of the control block has
  grown by one.
\<close>

theorem move_is_copy:
  "sref_move this corpse s = sref_copy this corpse s
   \<and> (srefs s corpse = Some r \<and> ctrl (ptr (data r)) = Some c \<and> blocks s c = Some (n, own)
        \<and> refers s corpse a x \<and> this \<noteq> corpse \<longrightarrow>
      (\<exists>s'. sref_move this corpse s = Inr s'
         \<and> srefs s' corpse = Some r \<and> srefs s' this = Some r
         \<and> refers s' corpse a x \<and> refers s' this a x
         \<and> blocks s' = (blocks s)(c \<mapsto> (Suc n, own)) \<and> heap s' = heap s))"
  by (auto simp: sref_move_def sref_copy_def sp_copy_def NotNull_copy_def refers_def)

theorem move_is_copy_witness:
  "sref_move 1 0 p1_state = sref_copy 1 0 p1_state
   \<and> refers p1_state 0 10 9
   \<and> (\<exists>s'. sref_move 1 0 p1_state = Inr s' \<and> srefs s' 0 = Some p1_ref \<and> srefs s' 1 = Some p1_ref
        \<and> refers s' 0 10 9 \<and> refers s' 1 10 9 \<and> blocks s' 1 = Some (2, 10))"
proof -
  have c: "ctrl (ptr (data p1_ref)) = Some 1" by (simp add: p1_ref_def)
  have b: "blocks p1_state 1 = Some (1, 10)" by (simp add: p1_state_def)
  have ne: "(1::nat) \<noteq> 0" by simp
  note m = move_is_copy [of 1 0 p1_state p1_ref 1 1 10 10 9]
  from m have eq: "sref_move 1 0 p1_state = sref_copy 1 0 p1_state" by (rule conjunct1)
  from m p1_srefs c b ne p1_refers obtain s' where
    s': "sref_move 1 0 p1_state = Inr s'" "srefs s' 0 = Some p1_ref" "srefs s' 1 = Some p1_ref"
      "refers s' 0 10 9" "refers s' 1 10 9" "blocks s' = (blocks p1_state)(1 \<mapsto> (Suc 1, 10))"
    by blast
  from s'(6) have "blocks s' 1 = Some (2, 10)" by simp
  with eq s' p1_refers show ?thesis by blast
qed





end
